theory Spec2Isabelle
  imports Complex_Main
begin

section \<open>NumPy arrays as a shape with row-major data\<close>

text \<open>
  \<^verbatim>\<open>viz.py\<close> works on NumPy arrays. An array is modelled by its shape and by
  its elements in C (row-major) order, the layout every array of the module has when it is
  read. The Python exceptions the module can raise are the values of \<open>error\<close>; a
  function that can raise returns \<open>error + 'a\<close>, with \<open>Inl\<close> for the exception.
  The specification calls \<open>AssertionError\<close> \<open>InvalidArgument\<close> and
  \<open>IndexError\<close> \<open>IndexOutOfRange\<close>.
\<close>

datatype error =
  AssertionError | IndexError | ValueError | AxisError | UnboundLocalError | OverflowError

record 'a ndarray =
  shape :: "nat list"
  data :: "'a list"

definition well_formed :: "'a ndarray \<Rightarrow> bool" where
  "well_formed a = (length (data a) = prod_list (shape a))"

definition ndim :: "'a ndarray \<Rightarrow> nat" where
  "ndim a = length (shape a)"

text \<open>The offset of a multi-index in C order, and the multi-index of an offset.\<close>

fun ravel :: "nat list \<Rightarrow> nat list \<Rightarrow> nat" where
  "ravel (s # ss) (i # js) = i * prod_list ss + ravel ss js"
| "ravel _ _ = 0"

fun unravel :: "nat list \<Rightarrow> nat \<Rightarrow> nat list" where
  "unravel [] k = []"
| "unravel (s # ss) k = (k div prod_list ss) # unravel ss (k mod prod_list ss)"

text \<open>\<^verbatim>\<open>a[i, j, ...]\<close> with one non-negative index for every axis.\<close>

definition getitem :: "'a ndarray \<Rightarrow> nat list \<Rightarrow> error + 'a" where
  "getitem a idx =
     (if length idx = ndim a \<and> list_all2 (<) idx (shape a)
      then Inr (data a ! ravel (shape a) idx)
      else Inl IndexError)"

text \<open>
  \<^verbatim>\<open>a[:n]\<close>: a slice of the first axis. An array of rank 0 has no axis to slice
  and NumPy raises \<open>IndexError\<close> (too many indices); a negative \<open>n\<close> counts from the
  end, and the stop is clipped to the length of the axis.
\<close>

definition getslice_to :: "'a ndarray \<Rightarrow> int \<Rightarrow> error + 'a ndarray" where
  "getslice_to a n =
     (case shape a of
        [] \<Rightarrow> Inl IndexError
      | s # ss \<Rightarrow>
          let stop = (if n < 0 then nat (max 0 (int s + n)) else min (nat n) s)
          in Inr \<lparr>shape = stop # ss, data = take (stop * prod_list ss) (data a)\<rparr>)"

text \<open>\<^verbatim>\<open>np.expand_dims(a, axis)\<close> for a non-negative axis.\<close>

definition expand_dims :: "'a ndarray \<Rightarrow> nat \<Rightarrow> error + 'a ndarray" where
  "expand_dims a axis =
     (if axis \<le> ndim a
      then Inr \<lparr>shape = take axis (shape a) @ [1] @ drop axis (shape a), data = data a\<rparr>
      else Inl AxisError)"

text \<open>
  \<^verbatim>\<open>np.pad(a, pad_width=[(0,n_gap),(0,0),(0,0),(0,0)], mode="constant",
  constant_values=0)\<close>: the four pairs need an array of rank 4, and a negative width
  is refused.
\<close>

definition pad_batch :: "'a::zero ndarray \<Rightarrow> int \<Rightarrow> error + 'a ndarray" where
  "pad_batch a n_gap =
     (case shape a of
        [b, h, w, c] \<Rightarrow>
          if n_gap < 0 then Inl ValueError
          else Inr \<lparr>shape = [b + nat n_gap, h, w, c],
                    data = data a @ replicate (nat n_gap * (h * (w * c))) 0\<rparr>
      | _ \<Rightarrow> Inl ValueError)"

text \<open>\<^verbatim>\<open>a.reshape(newshape)\<close>: the number of elements must not change.\<close>

definition reshape :: "'a ndarray \<Rightarrow> nat list \<Rightarrow> error + 'a ndarray" where
  "reshape a newshape =
     (if prod_list newshape = prod_list (shape a)
      then Inr \<lparr>shape = newshape, data = data a\<rparr>
      else Inl ValueError)"

text \<open>
  \<^verbatim>\<open>a.swapaxes(i, j)\<close>. NumPy returns a view; the model lists the elements of
  that view in C order, which is what the \<^verbatim>\<open>reshape\<close> that follows reads.
\<close>

definition swap_list :: "nat \<Rightarrow> nat \<Rightarrow> 'b list \<Rightarrow> 'b list" where
  "swap_list i j xs = xs[i := xs ! j, j := xs ! i]"

definition swapaxes :: "'a ndarray \<Rightarrow> nat \<Rightarrow> nat \<Rightarrow> error + 'a ndarray" where
  "swapaxes a i j =
     (if i < ndim a \<and> j < ndim a
      then let shp = swap_list i j (shape a)
           in Inr \<lparr>shape = shp,
                    data = map (\<lambda>k. data a ! ravel (shape a) (swap_list i j (unravel shp k)))
                             [0..<prod_list shp]\<rparr>
      else Inl AxisError)"

text \<open>\<^verbatim>\<open>a.squeeze(axis=k)\<close>: the axis must have length one.\<close>

definition squeeze_axis :: "'a ndarray \<Rightarrow> nat \<Rightarrow> error + 'a ndarray" where
  "squeeze_axis a axis =
     (if \<not> axis < ndim a then Inl AxisError
      else if shape a ! axis \<noteq> 1 then Inl ValueError
      else Inr \<lparr>shape = take axis (shape a) @ drop (Suc axis) (shape a), data = data a\<rparr>)"

text \<open>\<^verbatim>\<open>a.squeeze()\<close>: every axis of length one is removed.\<close>

definition squeeze :: "'a ndarray \<Rightarrow> 'a ndarray" where
  "squeeze a = \<lparr>shape = filter (\<lambda>s. s \<noteq> 1) (shape a), data = data a\<rparr>"

section \<open>The grid tiler\<close>

text \<open>
  \<^verbatim>\<open>batch_of_images_to_grid(imgs, rows, cols)\<close>, statement by statement: the
  assertion on \<open>rows\<close> and \<open>cols\<close>, the slice, the assertion on the rank, the added
  channel axis, the unpacking of the shape, the padding, the two reshapes around the swap
  of axes, and the removal of the channel axis.
\<close>

definition batch_of_images_to_grid :: "'a::zero ndarray \<Rightarrow> int \<Rightarrow> int \<Rightarrow> error + 'a ndarray" where
  "batch_of_images_to_grid imgs rows cols =
     (if \<not> (rows > 0 \<and> cols > 0) then Inl AssertionError
      else
        let n_cells = rows * cols in
        (case getslice_to imgs n_cells of
           Inl e \<Rightarrow> Inl e
         | Inr imgs1 \<Rightarrow>
             let n_dims = ndim imgs1 in
             if \<not> (n_dims = 3 \<or> n_dims = 4) then Inl AssertionError
             else
               (case (if n_dims = 3 then expand_dims imgs1 3 else Inr imgs1) of
                  Inl e \<Rightarrow> Inl e
                | Inr imgs2 \<Rightarrow>
                    (case shape imgs2 of
                       [n_batch, img_height, img_width, n_channels] \<Rightarrow>
                         let n_gap = n_cells - int n_batch in
                         (case pad_batch imgs2 n_gap of
                            Inl e \<Rightarrow> Inl e
                          | Inr imgs3 \<Rightarrow>
                              (case reshape imgs3
                                      [nat rows, nat cols, img_height, img_width, n_channels] of
                                 Inl e \<Rightarrow> Inl e
                               | Inr grid1 \<Rightarrow>
                                   (case swapaxes grid1 1 2 of
                                      Inl e \<Rightarrow> Inl e
                                    | Inr grid2 \<Rightarrow>
                                        (case reshape grid2
                                                [nat rows * img_height, nat cols * img_width,
                                                 n_channels] of
                                           Inl e \<Rightarrow> Inl e
                                         | Inr grid3 \<Rightarrow>
                                             if n_dims = 3 then squeeze_axis grid3 2
                                             else Inr grid3))))
                     | _ \<Rightarrow> Inl ValueError))))"

text \<open>
  Two names for the proofs. \<open>padded imgs n\<close> is the data of the batch after the slice
  and the padding to \<open>n\<close> images; \<open>tiled R C h w c P\<close> is the data that the
  reshape, the swap of axes 1 and 2 and the second reshape make of the data \<open>P\<close>.
\<close>

definition padded :: "'a::zero ndarray \<Rightarrow> nat \<Rightarrow> 'a list" where
  "padded imgs n =
     (let p = prod_list (tl (shape imgs)); m = min n (hd (shape imgs))
      in take (m * p) (data imgs) @ replicate ((n - m) * p) 0)"

definition tiled :: "nat \<Rightarrow> nat \<Rightarrow> nat \<Rightarrow> nat \<Rightarrow> nat \<Rightarrow> 'a list \<Rightarrow> 'a list" where
  "tiled R C h w c P =
     map (\<lambda>k. P ! ravel [R, C, h, w, c] (swap_list 1 2 (unravel [R, h, C, w, c] k)))
       [0..<R * (h * (C * (w * c)))]"

section \<open>The image encoder\<close>

text \<open>
  \<^verbatim>\<open>array2pil(x)\<close> binds its local \<^verbatim>\<open>mode\<close> only in the branches of the
  \<^verbatim>\<open>if\<close>/\<^verbatim>\<open>elif\<close> chain, which has no \<^verbatim>\<open>else\<close>. The locals after
  the chain are a pair: \<open>None\<close> is the unbound \<^verbatim>\<open>mode\<close>. Reading an unbound
  local raises \<open>UnboundLocalError\<close> when the arguments of the call are evaluated.
  \<^verbatim>\<open>PIL.Image.fromarray\<close> belongs to the imaging library and is a parameter.
\<close>

definition array2pil_locals :: "'a ndarray \<Rightarrow> string option \<times> 'a ndarray" where
  "array2pil_locals x =
     (if ndim x = 2 then (Some ''L'', x)
      else if ndim x = 3 \<and> shape x ! 2 = 1 then (Some ''L'', squeeze x)
      else if ndim x = 3 then (Some ''RGB'', x)
      else (None, x))"

definition array2pil ::
  "('a ndarray \<Rightarrow> string option \<Rightarrow> error + 'img) \<Rightarrow> 'a ndarray \<Rightarrow> error + 'img" where
  "array2pil fromarray x =
     (case array2pil_locals x of
        (None, x') \<Rightarrow> Inl UnboundLocalError
      | (Some mode, x') \<Rightarrow> fromarray x' (Some mode))"

section \<open>The label colorizer\<close>

definition default_colormap :: "int list list" where
  "default_colormap = [[0, 0, 0], [255, 79, 64], [115, 173, 33], [48, 126, 199]]"

text \<open>
  \<^verbatim>\<open>colormap[uid]\<close> on a Python list: an index below zero counts from the end of
  the list, and an index outside \<open>-len \<dots> len - 1\<close> raises \<open>IndexError\<close>.
\<close>

definition list_getitem :: "'b list \<Rightarrow> int \<Rightarrow> error + 'b" where
  "list_getitem xs i =
     (if i < - int (length xs) \<or> int (length xs) \<le> i then Inl IndexError
      else if i < 0 then Inr (xs ! nat (int (length xs) + i))
      else Inr (xs ! nat i))"

definition zeros :: "nat list \<Rightarrow> 'a::zero ndarray" where
  "zeros shp = \<lparr>shape = shp, data = replicate (prod_list shp) 0\<rparr>"

text \<open>\<^verbatim>\<open>np.unique\<close>: the distinct values, ascending.\<close>

definition np_unique :: "int list \<Rightarrow> int list" where
  "np_unique xs = sort (remdups xs)"

text \<open>
  \<^verbatim>\<open>a[label == uid] = v\<close> for a list \<open>v\<close> of integers and an array \<open>a\<close> of
  \<^verbatim>\<open>uint8\<close>. The boolean mask has the shape of \<open>label\<close> and must match the
  leading axes of \<open>a\<close>. The list is then converted to \<^verbatim>\<open>uint8\<close>, and NumPy
  refuses a Python integer outside \<open>0 \<dots> 255\<close> with \<open>OverflowError\<close>. With axes
  of \<open>a\<close> left over, \<open>v\<close> is broadcast along the last of them, so it has that
  length or length one; with a mask of the full rank, \<open>v\<close> has one element for every
  selected position, or one element for all.
\<close>

definition setitem_mask :: "int ndarray \<Rightarrow> int ndarray \<Rightarrow> int \<Rightarrow> int list \<Rightarrow> error + int ndarray" where
  "setitem_mask a label uid v =
     (let mask = map (\<lambda>l. l = uid) (data label);
          rest = drop (ndim label) (shape a)
      in if ndim a < ndim label \<or> shape label \<noteq> take (ndim label) (shape a)
         then Inl IndexError
         else if \<not> list_all (\<lambda>x. 0 \<le> x \<and> x \<le> 255) v then Inl OverflowError
         else if rest = [] then
           (if length v = 1 \<or> length v = length (filter id mask)
            then Inr (a\<lparr>data :=
                   map (\<lambda>k. if mask ! k
                             then v ! (if length v = 1 then 0
                                       else length (filter id (take k mask)))
                             else data a ! k)
                     [0..<length (data a)]\<rparr>)
            else Inl ValueError)
         else
           (if length v = 1 \<or> length v = last rest
            then Inr (a\<lparr>data :=
                   map (\<lambda>k. if mask ! (k div prod_list rest)
                             then v ! (if length v = 1 then 0 else k mod last rest)
                             else data a ! k)
                     [0..<length (data a)]\<rparr>)
            else Inl ValueError))"

text \<open>The loop \<^verbatim>\<open>for uid in uids: label_viz[label==uid] = colormap[uid]\<close>.\<close>

fun paint :: "int list list \<Rightarrow> int ndarray \<Rightarrow> int list \<Rightarrow> int ndarray \<Rightarrow> error + int ndarray" where
  "paint colormap label [] label_viz = Inr label_viz"
| "paint colormap label (uid # uids) label_viz =
     (case list_getitem colormap uid of
        Inl e \<Rightarrow> Inl e
      | Inr colour \<Rightarrow>
          (case setitem_mask label_viz label uid colour of
             Inl e \<Rightarrow> Inl e
           | Inr label_viz' \<Rightarrow> paint colormap label uids label_viz'))"

text \<open>
  The array \<^verbatim>\<open>label_viz\<close> of \<^verbatim>\<open>viz_segmentation_label\<close> before it is handed
  to the imaging library: the default colormap, the array of zeros (reading
  \<^verbatim>\<open>label.shape[1]\<close> needs rank 2 at least), and the loop.
\<close>

definition label_viz_array :: "int ndarray \<Rightarrow> int list list option \<Rightarrow> error + int ndarray" where
  "label_viz_array label colormap =
     (let cm = (case colormap of None \<Rightarrow> default_colormap | Some c \<Rightarrow> c)
      in case shape label of
           s0 # s1 # _ \<Rightarrow> paint cm label (np_unique (data label)) (zeros [s0, s1, 3])
         | _ \<Rightarrow> Inl IndexError)"

text \<open>
  \<^verbatim>\<open>viz_segmentation_label(label, colormap)\<close> with \<^verbatim>\<open>saveto=None\<close>, so that
  no file is written.
\<close>

definition viz_segmentation_label ::
  "(int ndarray \<Rightarrow> string option \<Rightarrow> error + 'img) \<Rightarrow> int ndarray \<Rightarrow> int list list option
     \<Rightarrow> error + 'img" where
  "viz_segmentation_label fromarray label colormap =
     (case label_viz_array label colormap of
        Inl e \<Rightarrow> Inl e
      | Inr label_viz \<Rightarrow> fromarray label_viz None)"

section \<open>The overlay compositor\<close>







section \<open>Offsets and multi-indices\<close>

lemma ravel_lt: "list_all2 (<) idx shp \<Longrightarrow> ravel shp idx < prod_list shp"
proof (induction idx shp rule: list_all2_induct)
  case Nil
  then show ?case by simp
next
  case (Cons i js s ss)
  show ?case
  proof (cases "ss = []")
    case True
    with Cons show ?thesis by simp
  next
    case False
    with Cons have r: "ravel ss js < prod_list ss" by simp
    have "i * prod_list ss + ravel ss js < i * prod_list ss + prod_list ss" using r by simp
    also have "\<dots> = Suc i * prod_list ss" by simp
    also have "\<dots> \<le> s * prod_list ss" using Cons.hyps(1) by (intro mult_le_mono1) simp
    finally show ?thesis by simp
  qed
qed

lemma unravel_ravel: "list_all2 (<) idx shp \<Longrightarrow> unravel shp (ravel shp idx) = idx"
proof (induction idx shp rule: list_all2_induct)
  case Nil
  then show ?case by simp
next
  case (Cons i js s ss)
  show ?case
  proof (cases "ss = []")
    case True
    with Cons show ?thesis by simp
  next
    case False
    with Cons have r: "ravel ss js < prod_list ss" by (simp add: ravel_lt)
    then show ?thesis using Cons by simp
  qed
qed

lemma unravel_lt: "k < prod_list shp \<Longrightarrow> list_all2 (<) (unravel shp k) shp"
proof (induction shp arbitrary: k)
  case Nil
  then show ?case by simp
next
  case (Cons s ss)
  from Cons.prems have p: "0 < prod_list ss" by (cases "prod_list ss = 0") auto
  from Cons.prems have "k div prod_list ss < s"
    by (simp add: less_mult_imp_div_less)
  moreover have "k mod prod_list ss < prod_list ss" using p by simp
  ultimately show ?case using Cons.IH by simp
qed

lemma cell_bound: "(i::nat) < n \<Longrightarrow> j < m \<Longrightarrow> i * m + j < n * m"
proof -
  assume a: "i < n" "j < m"
  have "i * m + j < i * m + m" using a by simp
  also have "\<dots> = Suc i * m" by simp
  also have "\<dots> \<le> n * m" using a by (intro mult_le_mono1) simp
  finally show ?thesis .
qed

lemma tiled_nth:
  assumes "r < R" "y < h" "cc < C" "x < w" "ch < c"
  shows "tiled R C h w c P ! (((r * h + y) * (C * w) + (cc * w + x)) * c + ch)
         = P ! ((((r * C + cc) * h + y) * w + x) * c + ch)"
proof -
  let ?idx = "[r, y, cc, x, ch]"
  let ?shp = "[R, h, C, w, c]"
  have b: "list_all2 (<) ?idx ?shp" using assms by simp
  have k: "((r * h + y) * (C * w) + (cc * w + x)) * c + ch = ravel ?shp ?idx"
    by (simp add: algebra_simps)
  have lt: "ravel ?shp ?idx < R * (h * (C * (w * c)))"
    using ravel_lt[OF b] by simp
  have u: "unravel ?shp (ravel ?shp ?idx) = ?idx" by (rule unravel_ravel[OF b])
  have s: "swap_list 1 2 ?idx = [r, cc, y, x, ch]" by (simp add: swap_list_def)
  have t: "ravel [R, C, h, w, c] [r, cc, y, x, ch] = (((r * C + cc) * h + y) * w + x) * c + ch"
    by (simp add: algebra_simps)
  have "tiled R C h w c P ! ravel ?shp ?idx
        = P ! ravel [R, C, h, w, c] (swap_list 1 2 (unravel ?shp (ravel ?shp ?idx)))"
    unfolding tiled_def using lt by (simp del: ravel.simps unravel.simps)
  then show ?thesis
    by (simp only: k u s t)
qed

lemma padded_image:
  assumes "shape imgs = b # ss" "well_formed imgs" "i < b" "i < n" "j < prod_list ss"
  shows "padded imgs n ! (i * prod_list ss + j) = data imgs ! (i * prod_list ss + j)"
proof -
  have "i * prod_list ss + j < min n b * prod_list ss"
    using assms by (intro cell_bound) simp_all
  moreover have "min n b * prod_list ss \<le> length (data imgs)"
    using assms by (simp add: well_formed_def)
  ultimately show ?thesis using assms
    by (simp add: padded_def nth_append Let_def)
qed

lemma padded_blank:
  assumes "shape imgs = b # ss" "well_formed imgs" "b \<le> i" "i < n" "j < prod_list ss"
  shows "padded imgs n ! (i * prod_list ss + j) = 0"
proof -
  have m: "min n b = b" using assms by simp
  have len: "length (take (b * prod_list ss) (data imgs)) = b * prod_list ss"
    using assms by (simp add: well_formed_def)
  have ge: "b * prod_list ss \<le> i * prod_list ss + j" using assms
    by (meson le_add1 le_trans mult_le_mono1)
  have "i * prod_list ss + j < n * prod_list ss" using assms by (intro cell_bound) simp_all
  then have lt: "i * prod_list ss + j - b * prod_list ss < (n - b) * prod_list ss"
    using ge by (simp add: diff_mult_distrib)
  show ?thesis using assms ge lt len
    by (simp add: padded_def m nth_append Let_def)
qed


lemma grid4:
  assumes "shape imgs = [b, h, w, c]" "0 < rows" "0 < cols"
  shows "batch_of_images_to_grid imgs rows cols =
    Inr \<lparr>shape = [nat rows * h, nat cols * w, c],
         data = tiled (nat rows) (nat cols) h w c (padded imgs (nat rows * nat cols))\<rparr>"
proof -
  have n: "nat (rows * cols) = nat rows * nat cols" using assms by (simp add: nat_mult_distrib)
  have pos: "\<not> rows * cols < 0" using assms by (simp add: mult_less_0_iff)
  have rc: "rows * cols = int (nat rows * nat cols)" using n pos by linarith
  have gap: "\<not> int (nat rows * nat cols) - int (min (nat rows * nat cols) b) < 0"
    by linarith
  have gapn: "nat (int (nat rows * nat cols) - int (min (nat rows * nat cols) b))
              = nat rows * nat cols - min (nat rows * nat cols) b"
    by linarith
  show ?thesis
    unfolding batch_of_images_to_grid_def rc
    using assms gap
    by (simp add: getslice_to_def ndim_def pad_batch_def gapn reshape_def swapaxes_def
        swap_list_def padded_def tiled_def Let_def del: of_nat_mult)
qed

lemma grid3:
  assumes "shape imgs = [b, h, w]" "0 < rows" "0 < cols"
  shows "batch_of_images_to_grid imgs rows cols =
    Inr \<lparr>shape = [nat rows * h, nat cols * w],
         data = tiled (nat rows) (nat cols) h w 1 (padded imgs (nat rows * nat cols))\<rparr>"
proof -
  have n: "nat (rows * cols) = nat rows * nat cols" using assms by (simp add: nat_mult_distrib)
  have pos: "\<not> rows * cols < 0" using assms by (simp add: mult_less_0_iff)
  have rc: "rows * cols = int (nat rows * nat cols)" using n pos by linarith
  have gap: "\<not> int (nat rows * nat cols) - int (min (nat rows * nat cols) b) < 0"
    by linarith
  have gapn: "nat (int (nat rows * nat cols) - int (min (nat rows * nat cols) b))
              = nat rows * nat cols - min (nat rows * nat cols) b"
    by linarith
  show ?thesis
    unfolding batch_of_images_to_grid_def rc
    using assms gap
    by (simp add: getslice_to_def ndim_def expand_dims_def pad_batch_def gapn reshape_def
        swapaxes_def swap_list_def squeeze_axis_def padded_def tiled_def Let_def
        del: of_nat_mult)
qed

lemma tiled_cell:
  assumes "i < R * C" "y < h" "x < w" "ch < c"
  shows "tiled R C h w c P ! (((i div C) * h + y) * (C * w * c) + (((i mod C) * w + x) * c + ch))
         = P ! (i * (h * (w * c)) + (y * (w * c) + (x * c + ch)))"
proof -
  have C: "0 < C" using assms by (cases "C = 0") auto
  have r: "i div C < R" using assms by (simp add: less_mult_imp_div_less)
  have cc: "i mod C < C" using C by simp
  have i: "i div C * C + i mod C = i" by simp
  have "tiled R C h w c P ! (((i div C * h + y) * (C * w) + (i mod C * w + x)) * c + ch)
         = P ! ((((i div C * C + i mod C) * h + y) * w + x) * c + ch)"
    by (rule tiled_nth[OF r assms(2) cc assms(3) assms(4)])
  then show ?thesis unfolding i by (simp add: algebra_simps)
qed

lemma nat_cells: "0 < rows \<Longrightarrow> 0 < cols \<Longrightarrow> int i < rows * cols \<Longrightarrow> i < nat rows * nat cols"
  by (metis nat_int nat_mult_distrib zless_nat_conj less_imp_le mult_pos_pos)

section \<open>The elements of the grid\<close>

lemma grid_item4:
  assumes "shape imgs = [b, h, w, c]" "well_formed imgs" "0 < rows" "0 < cols"
    and "int i < rows * cols" "y < h" "x < w" "ch < c"
    and "batch_of_images_to_grid imgs rows cols = Inr g"
  shows "getitem g [(i div nat cols) * h + y, (i mod nat cols) * w + x, ch]
         = Inr (if i < b then data imgs ! ravel [b, h, w, c] [i, y, x, ch] else 0)"
proof -
  let ?R = "nat rows" and ?C = "nat cols"
  have i: "i < ?R * ?C" using assms by (simp add: nat_cells)
  have C: "0 < ?C" using assms by simp
  have g: "g = \<lparr>shape = [?R * h, ?C * w, c],
         data = tiled ?R ?C h w c (padded imgs (?R * ?C))\<rparr>"
    using grid4[OF assms(1,3,4)] assms(9) by simp
  have Y: "(i div ?C) * h + y < ?R * h"
    using i assms by (intro cell_bound) (simp_all add: less_mult_imp_div_less)
  have X: "(i mod ?C) * w + x < ?C * w"
    using C assms by (intro cell_bound) simp_all
  have j: "y * (w * c) + (x * c + ch) < prod_list [h, w, c]"
    using ravel_lt[of "[y, x, ch]" "[h, w, c]"] assms by simp
  have p: "padded imgs (?R * ?C) ! (i * prod_list [h, w, c] + (y * (w * c) + (x * c + ch)))
      = (if i < b then data imgs ! (i * prod_list [h, w, c] + (y * (w * c) + (x * c + ch))) else 0)"
    using padded_image[OF assms(1,2) _ i j] padded_blank[OF assms(1,2) _ i j]
    by (cases "i < b") simp_all
  have t: "tiled ?R ?C h w c (padded imgs (?R * ?C)) !
             (((i div ?C) * h + y) * (?C * w * c) + (((i mod ?C) * w + x) * c + ch))
           = padded imgs (?R * ?C) ! (i * (h * (w * c)) + (y * (w * c) + (x * c + ch)))"
    by (rule tiled_cell[OF i assms(6,7,8)])
  show ?thesis
    using Y X assms(8) t p by (simp add: g getitem_def ndim_def mult.assoc)
qed

lemma grid_item3:
  assumes "shape imgs = [b, h, w]" "well_formed imgs" "0 < rows" "0 < cols"
    and "int i < rows * cols" "y < h" "x < w"
    and "batch_of_images_to_grid imgs rows cols = Inr g"
  shows "getitem g [(i div nat cols) * h + y, (i mod nat cols) * w + x]
         = Inr (if i < b then data imgs ! ravel [b, h, w] [i, y, x] else 0)"
proof -
  let ?R = "nat rows" and ?C = "nat cols"
  have i: "i < ?R * ?C" using assms by (simp add: nat_cells)
  have C: "0 < ?C" using assms by simp
  have g: "g = \<lparr>shape = [?R * h, ?C * w],
         data = tiled ?R ?C h w 1 (padded imgs (?R * ?C))\<rparr>"
    using grid3[OF assms(1,3,4)] assms(8) by simp
  have Y: "(i div ?C) * h + y < ?R * h"
    using i assms by (intro cell_bound) (simp_all add: less_mult_imp_div_less)
  have X: "(i mod ?C) * w + x < ?C * w"
    using C assms by (intro cell_bound) simp_all
  have j: "y * w + x < prod_list [h, w]"
    using ravel_lt[of "[y, x]" "[h, w]"] assms by simp
  have p: "padded imgs (?R * ?C) ! (i * prod_list [h, w] + (y * w + x))
      = (if i < b then data imgs ! (i * prod_list [h, w] + (y * w + x)) else 0)"
    using padded_image[OF assms(1,2) _ i j] padded_blank[OF assms(1,2) _ i j]
    by (cases "i < b") simp_all
  have t: "tiled ?R ?C h w 1 (padded imgs (?R * ?C)) !
             (((i div ?C) * h + y) * (?C * w * 1) + (((i mod ?C) * w + x) * 1 + 0))
           = padded imgs (?R * ?C) ! (i * (h * (w * 1)) + (y * (w * 1) + (x * 1 + 0)))"
    by (rule tiled_cell[OF i assms(6,7)]) simp
  show ?thesis
    using Y X t p by (simp add: g getitem_def ndim_def)
qed

lemma image_item4:
  assumes "shape imgs = [b, h, w, c]" "i < b" "y < h" "x < w" "ch < c"
  shows "getitem imgs [i, y, x, ch] = Inr (data imgs ! ravel [b, h, w, c] [i, y, x, ch])"
  using assms by (simp add: getitem_def ndim_def)

lemma image_item3:
  assumes "shape imgs = [b, h, w]" "i < b" "y < h" "x < w"
  shows "getitem imgs [i, y, x] = Inr (data imgs ! ravel [b, h, w] [i, y, x])"
  using assms by (simp add: getitem_def ndim_def)

lemma tiled_length: "length (tiled R C h w c P) = R * (h * (C * (w * c)))"
  by (simp add: tiled_def)

lemma tiled_zeros:
  "tiled R C h w c (replicate (R * C * (h * (w * c))) (0::'a::zero)) = replicate (R * (h * (C * (w * c)))) 0"
proof -
  have "P ! ravel [R, C, h, w, c] (swap_list 1 2 (unravel [R, h, C, w, c] k)) = (0::'a)"
    if k: "k < R * (h * (C * (w * c)))" and P: "P = replicate (R * C * (h * (w * c))) 0" for k P
  proof -
    have "list_all2 (<) (unravel [R, h, C, w, c] k) [R, h, C, w, c]"
      using k by (intro unravel_lt) simp
    then have "list_all2 (<) (swap_list 1 2 (unravel [R, h, C, w, c] k)) [R, C, h, w, c]"
      by (simp add: swap_list_def)
    then have "ravel [R, C, h, w, c] (swap_list 1 2 (unravel [R, h, C, w, c] k))
               < prod_list [R, C, h, w, c]"
      by (rule ravel_lt)
    then show ?thesis unfolding P by (simp add: mult.assoc del: ravel.simps unravel.simps)
  qed
  then show ?thesis
    unfolding tiled_def by (intro nth_equalityI) (simp_all del: ravel.simps unravel.simps)
qed

lemma padded_empty:
  assumes "shape imgs = 0 # ss"
  shows "padded imgs n = replicate (n * prod_list ss) 0"
  using assms by (simp add: padded_def)


section \<open>Properties of the grid tiler\<close>

text \<open>
  C1. For \<open>rows > 0\<close>, \<open>cols > 0\<close> and a batch of \<open>b \<le> rows * cols\<close> images, the
  grid tiler returns an array of shape \<open>(rows*h, cols*w)\<close> for a batch of rank 3 and of
  shape \<open>(rows*h, cols*w, c)\<close> for a batch of rank 4. The batch axis is gone from the
  result, so its rank is one less than the rank of the batch: 2 for rank 3, 3 for rank 4.
  The channel axis is in the result exactly when it is in the batch.
\<close>

theorem grid_shape:
  assumes "0 < rows" "0 < cols" "int b \<le> rows * cols"
  shows "(shape imgs = [b, h, w] \<longrightarrow>
            (\<exists>g. batch_of_images_to_grid imgs rows cols = Inr g \<and> well_formed g \<and>
                 shape g = [nat rows * h, nat cols * w] \<and> Suc (ndim g) = ndim imgs))
       \<and> (shape imgs = [b, h, w, c] \<longrightarrow>
            (\<exists>g. batch_of_images_to_grid imgs rows cols = Inr g \<and> well_formed g \<and>
                 shape g = [nat rows * h, nat cols * w, c] \<and> Suc (ndim g) = ndim imgs))"
proof (intro conjI impI)
  assume s: "shape imgs = [b, h, w]"
  show "\<exists>g. batch_of_images_to_grid imgs rows cols = Inr g \<and> well_formed g \<and>
                 shape g = [nat rows * h, nat cols * w] \<and> Suc (ndim g) = ndim imgs"
    using grid3[OF s assms(1,2)] s by (simp add: well_formed_def ndim_def tiled_length)
next
  assume s: "shape imgs = [b, h, w, c]"
  show "\<exists>g. batch_of_images_to_grid imgs rows cols = Inr g \<and> well_formed g \<and>
                 shape g = [nat rows * h, nat cols * w, c] \<and> Suc (ndim g) = ndim imgs"
    using grid4[OF s assms(1,2)] s by (simp add: well_formed_def ndim_def tiled_length)
qed


theorem grid_shape_witness:
  "(\<exists>g. batch_of_images_to_grid
          \<lparr>shape = [6, 2, 2], data = [0, 1, 2, 3, 4, 5, 6, 7, 8, 9, 10, 11, 12, 13, 14, 15, 16,
             17, 18, 19, 20, 21, 22, 23 :: int]\<rparr> 2 3 = Inr g
        \<and> well_formed g \<and> shape g = [4, 6] \<and> ndim g = 2)
   \<and> (\<exists>g. batch_of_images_to_grid
          \<lparr>shape = [3, 1, 2, 3], data = [1, 2, 3, 4, 5, 6, 7, 8, 9, 10, 11, 12, 13, 14, 15, 16,
             17, 18 :: int]\<rparr> 2 2 = Inr g
        \<and> well_formed g \<and> shape g = [2, 4, 3] \<and> ndim g = 3)"
  using grid_shape [of 2 3 6 "\<lparr>shape = [6, 2, 2], data = [0, 1, 2, 3, 4, 5, 6, 7, 8, 9, 10, 11,
             12, 13, 14, 15, 16, 17, 18, 19, 20, 21, 22, 23 :: int]\<rparr>" 2 2]
        grid_shape [of 2 2 3 "\<lparr>shape = [3, 1, 2, 3], data = [1, 2, 3, 4, 5, 6, 7, 8, 9, 10, 11,
             12, 13, 14, 15, 16, 17, 18 :: int]\<rparr>" 1 2 3]
  by (auto simp: ndim_def)


text \<open>
  A batch of rank 3 does not give a grid of rank 3: one image of one pixel, tiled into
  a grid of one cell, is an array of rank 2.
\<close>

theorem grid_rank_counterexample:
  "batch_of_images_to_grid \<lparr>shape = [1, 1, 1], data = [5 :: int]\<rparr> 1 1
     = Inr \<lparr>shape = [1, 1], data = [5]\<rparr>
   \<and> ndim \<lparr>shape = [1, 1, 1], data = [5 :: int]\<rparr> = 3
   \<and> ndim \<lparr>shape = [1, 1], data = [5 :: int]\<rparr> \<noteq> 3"
  by code_simp

text \<open>
  C2. The images are placed in row-major order. For a batch index \<open>i\<close> below the batch
  size and below \<open>rows * cols\<close>, the block of the grid at cell
  \<open>(i div cols, i mod cols)\<close>, that is rows \<open>(i div cols) * h + y\<close> and columns
  \<open>(i mod cols) * w + x\<close> for \<open>y < h\<close> and \<open>x < w\<close>, holds image \<open>i\<close>, pixel
  by pixel, for a batch of rank 3 and, channel by channel, for a batch of rank 4. Six
  images of 2 by 2 pixels in a grid of 2 by 3 cells are the instance that follows.
\<close>

theorem grid_row_major:
  assumes "well_formed imgs" "0 < rows" "0 < cols"
    and "i < b" "int i < rows * cols" "y < h" "x < w"
  shows "(shape imgs = [b, h, w] \<longrightarrow>
            (\<exists>g v. batch_of_images_to_grid imgs rows cols = Inr g \<and>
                   getitem imgs [i, y, x] = Inr v \<and>
                   getitem g [(i div nat cols) * h + y, (i mod nat cols) * w + x] = Inr v))
       \<and> (shape imgs = [b, h, w, c] \<and> ch < c \<longrightarrow>
            (\<exists>g v. batch_of_images_to_grid imgs rows cols = Inr g \<and>
                   getitem imgs [i, y, x, ch] = Inr v \<and>
                   getitem g [(i div nat cols) * h + y, (i mod nat cols) * w + x, ch] = Inr v))"
proof (intro conjI impI)
  assume s: "shape imgs = [b, h, w]"
  obtain g where g: "batch_of_images_to_grid imgs rows cols = Inr g"
    using grid3[OF s assms(2,3)] by simp
  show "\<exists>g v. batch_of_images_to_grid imgs rows cols = Inr g \<and>
                   getitem imgs [i, y, x] = Inr v \<and>
                   getitem g [(i div nat cols) * h + y, (i mod nat cols) * w + x] = Inr v"
    using g grid_item3[OF s assms(1,2,3,5,6,7) g] image_item3[OF s assms(4,6,7)] assms(4)
    by simp
next
  assume "shape imgs = [b, h, w, c] \<and> ch < c"
  then have s: "shape imgs = [b, h, w, c]" and ch: "ch < c" by simp_all
  obtain g where g: "batch_of_images_to_grid imgs rows cols = Inr g"
    using grid4[OF s assms(2,3)] by simp
  show "\<exists>g v. batch_of_images_to_grid imgs rows cols = Inr g \<and>
                   getitem imgs [i, y, x, ch] = Inr v \<and>
                   getitem g [(i div nat cols) * h + y, (i mod nat cols) * w + x, ch] = Inr v"
    using g grid_item4[OF s assms(1,2,3,5,6,7) ch g] image_item4[OF s assms(4,6,7) ch] assms(4)
    by simp
qed

theorem grid_row_major_witness:
  "getitem \<lparr>shape = [6, 2, 2], data = [0, 1, 2, 3, 4, 5, 6, 7, 8, 9, 10, 11, 12, 13, 14, 15, 16,
             17, 18, 19, 20, 21, 22, 23 :: int]\<rparr> [5, 1, 0] = Inr 22
   \<and> (\<exists>g. batch_of_images_to_grid
          \<lparr>shape = [6, 2, 2], data = [0, 1, 2, 3, 4, 5, 6, 7, 8, 9, 10, 11, 12, 13, 14, 15, 16,
             17, 18, 19, 20, 21, 22, 23 :: int]\<rparr> 2 3 = Inr g
        \<and> getitem g [3, 4] = Inr 22)
   \<and> getitem \<lparr>shape = [3, 1, 2, 3], data = [1, 2, 3, 4, 5, 6, 7, 8, 9, 10, 11, 12, 13, 14, 15,
             16, 17, 18 :: int]\<rparr> [2, 0, 1, 2] = Inr 18
   \<and> (\<exists>g. batch_of_images_to_grid
          \<lparr>shape = [3, 1, 2, 3], data = [1, 2, 3, 4, 5, 6, 7, 8, 9, 10, 11, 12, 13, 14, 15,
             16, 17, 18 :: int]\<rparr> 2 2 = Inr g
        \<and> getitem g [1, 1, 2] = Inr 18)"
  using grid_row_major [of "\<lparr>shape = [6, 2, 2], data = [0, 1, 2, 3, 4, 5, 6, 7, 8, 9, 10, 11,
             12, 13, 14, 15, 16, 17, 18, 19, 20, 21, 22, 23 :: int]\<rparr>" 2 3 5 6 1 2 0 2]
        grid_row_major [of "\<lparr>shape = [3, 1, 2, 3], data = [1, 2, 3, 4, 5, 6, 7, 8, 9, 10, 11,
             12, 13, 14, 15, 16, 17, 18 :: int]\<rparr>" 2 2 2 3 0 1 1 2 3 2]
  by (auto simp: well_formed_def getitem_def ndim_def)

text \<open>The example of the specification in full: six images of 2 by 2 pixels, 2 by 3 cells.\<close>

lemma grid_example_2x3:
  "batch_of_images_to_grid
     \<lparr>shape = [6, 2, 2], data = [0, 1, 2, 3, 4, 5, 6, 7, 8, 9, 10, 11, 12, 13, 14, 15, 16, 17,
        18, 19, 20, 21, 22, 23 :: int]\<rparr> 2 3
   = Inr \<lparr>shape = [4, 6], data = [0, 1, 4, 5, 8, 9,
                                    2, 3, 6, 7, 10, 11,
                                    12, 13, 16, 17, 20, 21,
                                    14, 15, 18, 19, 22, 23]\<rparr>"
  by code_simp

text \<open>
  The two assertions of the tiler. A non-positive \<open>rows\<close> or \<open>cols\<close> fails the first
  one. The slice comes before the assertion on the rank, so a batch of rank 0 never reaches
  it; every other rank but 3 and 4 fails it, and ranks 3 and 4 give a grid.
\<close>

lemma grid_rejects_nonpositive:
  "rows \<le> 0 \<or> cols \<le> 0 \<Longrightarrow> batch_of_images_to_grid imgs rows cols = Inl AssertionError"
  by (auto simp: batch_of_images_to_grid_def)

lemma getslice_to_ndim:
  "getslice_to a n = Inr a' \<Longrightarrow> ndim a' = ndim a"
  by (auto simp: getslice_to_def ndim_def Let_def split: list.splits)

lemma grid_rejects_rank:
  assumes "0 < rows" "0 < cols" "ndim imgs \<noteq> 0" "ndim imgs \<noteq> 3" "ndim imgs \<noteq> 4"
  shows "batch_of_images_to_grid imgs rows cols = Inl AssertionError"
proof -
  obtain a where a: "getslice_to imgs (rows * cols) = Inr a"
    using assms(3) by (cases "shape imgs") (simp_all add: getslice_to_def ndim_def Let_def)
  have "ndim a = ndim imgs" by (rule getslice_to_ndim[OF a])
  then show ?thesis using assms a by (simp add: batch_of_images_to_grid_def)
qed

lemma grid_rank0:
  assumes "0 < rows" "0 < cols" "ndim imgs = 0"
  shows "batch_of_images_to_grid imgs rows cols = Inl IndexError"
  using assms by (simp add: batch_of_images_to_grid_def getslice_to_def ndim_def)

lemma grid_accepts:
  assumes "0 < rows" "0 < cols" "ndim imgs = 3 \<or> ndim imgs = 4"
  shows "\<exists>g. batch_of_images_to_grid imgs rows cols = Inr g"
proof -
  from assms(3) show ?thesis
  proof
    assume "ndim imgs = 3"
    then obtain b h w where s: "shape imgs = [b, h, w]"
      by (auto simp: ndim_def length_Suc_conv numeral_3_eq_3)
    show ?thesis using grid3[OF s assms(1,2)] by simp
  next
    assume "ndim imgs = 4"
    then obtain b h w c where s: "shape imgs = [b, h, w, c]"
      by (auto simp: ndim_def length_Suc_conv eval_nat_numeral)
    show ?thesis using grid4[OF s assms(1,2)] by simp
  qed
qed


text \<open>
  C3. The tiler is to fail with \<open>AssertionError\<close> (the specification's
  \<open>InvalidArgument\<close>) for every rank other than 3 and 4. For an array of rank 0 and
  positive \<open>rows\<close> and \<open>cols\<close> it fails with \<open>IndexError\<close> instead: the slice
  \<^verbatim>\<open>imgs[:n_cells]\<close> is evaluated before the rank is asserted.
\<close>

theorem grid_rank0_index_error:
  "batch_of_images_to_grid \<lparr>shape = [], data = [7 :: int]\<rparr> 1 1 = Inl IndexError
   \<and> ndim \<lparr>shape = [], data = [7 :: int]\<rparr> = 0"
  by code_simp

lemma grid_of_slice:
  assumes "getslice_to imgs' (rows * cols) = getslice_to imgs (rows * cols)"
  shows "batch_of_images_to_grid imgs' rows cols = batch_of_images_to_grid imgs rows cols"
  using assms by (simp add: batch_of_images_to_grid_def)


text \<open>
  C4. A batch of more than \<open>rows * cols\<close> images is tiled without an error. Every
  cell of the grid holds the image of its index, so exactly the first \<open>rows * cols\<close>
  images are in the grid, and a batch with the same first \<open>rows * cols\<close> images (the
  same slice \<^verbatim>\<open>imgs[:n_cells]\<close>) gives the same grid: the images behind them
  have no effect.
\<close>

theorem grid_truncates:
  assumes "well_formed imgs" "0 < rows" "0 < cols" "rows * cols < int b"
  shows "(shape imgs = [b, h, w] \<longrightarrow>
            (\<exists>g. batch_of_images_to_grid imgs rows cols = Inr g \<and>
               (\<forall>imgs'. getslice_to imgs' (rows * cols) = getslice_to imgs (rows * cols) \<longrightarrow>
                   batch_of_images_to_grid imgs' rows cols = Inr g) \<and>
               (\<forall>i y x. int i < rows * cols \<and> y < h \<and> x < w \<longrightarrow>
                   (\<exists>v. getitem imgs [i, y, x] = Inr v \<and>
                        getitem g [(i div nat cols) * h + y, (i mod nat cols) * w + x] = Inr v))))
       \<and> (shape imgs = [b, h, w, c] \<longrightarrow>
            (\<exists>g. batch_of_images_to_grid imgs rows cols = Inr g \<and>
               (\<forall>imgs'. getslice_to imgs' (rows * cols) = getslice_to imgs (rows * cols) \<longrightarrow>
                   batch_of_images_to_grid imgs' rows cols = Inr g) \<and>
               (\<forall>i y x ch. int i < rows * cols \<and> y < h \<and> x < w \<and> ch < c \<longrightarrow>
                   (\<exists>v. getitem imgs [i, y, x, ch] = Inr v \<and>
                        getitem g [(i div nat cols) * h + y, (i mod nat cols) * w + x, ch]
                          = Inr v))))"
proof (intro conjI impI)
  assume s: "shape imgs = [b, h, w]"
  obtain g where g: "batch_of_images_to_grid imgs rows cols = Inr g"
    using grid3[OF s assms(2,3)] by simp
  have cells: "\<exists>v. getitem imgs [i, y, x] = Inr v \<and>
                  getitem g [(i div nat cols) * h + y, (i mod nat cols) * w + x] = Inr v"
    if "int i < rows * cols \<and> y < h \<and> x < w" for i y x
  proof -
    from that have i: "int i < rows * cols" and y: "y < h" and x: "x < w" by simp_all
    have ib: "i < b" using i assms(4) by linarith
    show ?thesis
      using grid_item3[OF s assms(1,2,3) i y x g] image_item3[OF s ib y x] ib by simp
  qed
  show "\<exists>g. batch_of_images_to_grid imgs rows cols = Inr g \<and>
               (\<forall>imgs'. getslice_to imgs' (rows * cols) = getslice_to imgs (rows * cols) \<longrightarrow>
                   batch_of_images_to_grid imgs' rows cols = Inr g) \<and>
               (\<forall>i y x. int i < rows * cols \<and> y < h \<and> x < w \<longrightarrow>
                   (\<exists>v. getitem imgs [i, y, x] = Inr v \<and>
                        getitem g [(i div nat cols) * h + y, (i mod nat cols) * w + x] = Inr v))"
    proof (intro exI[of _ g] conjI allI impI)
    show "batch_of_images_to_grid imgs rows cols = Inr g" by (rule g)
  next
    fix imgs' :: "'a ndarray"
    assume "getslice_to imgs' (rows * cols) = getslice_to imgs (rows * cols)"
    then show "batch_of_images_to_grid imgs' rows cols = Inr g"
      using grid_of_slice[of imgs' rows cols imgs] g by simp
  next
    fix i y x
    assume "int i < rows * cols \<and> y < h \<and> x < w"
    then show "\<exists>v. getitem imgs [i, y, x] = Inr v \<and>
                  getitem g [(i div nat cols) * h + y, (i mod nat cols) * w + x] = Inr v"
      by (rule cells)
  qed
next
  assume s: "shape imgs = [b, h, w, c]"
  obtain g where g: "batch_of_images_to_grid imgs rows cols = Inr g"
    using grid4[OF s assms(2,3)] by simp
  have cells: "\<exists>v. getitem imgs [i, y, x, ch] = Inr v \<and>
                  getitem g [(i div nat cols) * h + y, (i mod nat cols) * w + x, ch] = Inr v"
    if "int i < rows * cols \<and> y < h \<and> x < w \<and> ch < c" for i y x ch
  proof -
    from that have i: "int i < rows * cols" and y: "y < h" and x: "x < w" and ch: "ch < c"
      by simp_all
    have ib: "i < b" using i assms(4) by linarith
    show ?thesis
      using grid_item4[OF s assms(1,2,3) i y x ch g] image_item4[OF s ib y x ch] ib by simp
  qed
  show "\<exists>g. batch_of_images_to_grid imgs rows cols = Inr g \<and>
               (\<forall>imgs'. getslice_to imgs' (rows * cols) = getslice_to imgs (rows * cols) \<longrightarrow>
                   batch_of_images_to_grid imgs' rows cols = Inr g) \<and>
               (\<forall>i y x ch. int i < rows * cols \<and> y < h \<and> x < w \<and> ch < c \<longrightarrow>
                   (\<exists>v. getitem imgs [i, y, x, ch] = Inr v \<and>
                        getitem g [(i div nat cols) * h + y, (i mod nat cols) * w + x, ch]
                          = Inr v))"
    proof (intro exI[of _ g] conjI allI impI)
    show "batch_of_images_to_grid imgs rows cols = Inr g" by (rule g)
  next
    fix imgs' :: "'a ndarray"
    assume "getslice_to imgs' (rows * cols) = getslice_to imgs (rows * cols)"
    then show "batch_of_images_to_grid imgs' rows cols = Inr g"
      using grid_of_slice[of imgs' rows cols imgs] g by simp
  next
    fix i y x ch
    assume "int i < rows * cols \<and> y < h \<and> x < w \<and> ch < c"
    then show "\<exists>v. getitem imgs [i, y, x, ch] = Inr v \<and>
                  getitem g [(i div nat cols) * h + y, (i mod nat cols) * w + x, ch] = Inr v"
      by (rule cells)
  qed
qed



theorem grid_truncates_witness:
  "(\<exists>g. batch_of_images_to_grid \<lparr>shape = [3, 1, 2], data = [1, 2, 3, 4, 5, 6 :: int]\<rparr> 1 2 = Inr g
        \<and> batch_of_images_to_grid
            \<lparr>shape = [4, 1, 2], data = [1, 2, 3, 4, 9, 9, 9, 9 :: int]\<rparr> 1 2 = Inr g
        \<and> getitem g [0, 3] = Inr 4)
   \<and> (\<exists>g. batch_of_images_to_grid
            \<lparr>shape = [3, 1, 1, 2], data = [1, 2, 3, 4, 5, 6 :: int]\<rparr> 1 2 = Inr g
        \<and> batch_of_images_to_grid
            \<lparr>shape = [2, 1, 1, 2], data = [1, 2, 3, 4 :: int]\<rparr> 1 2 = Inr g
        \<and> getitem g [0, 1, 1] = Inr 4)"
proof (rule conjI)
  let ?X = "\<lparr>shape = [3, 1, 2], data = [1, 2, 3, 4, 5, 6 :: int]\<rparr>"
  let ?X' = "\<lparr>shape = [4, 1, 2], data = [1, 2, 3, 4, 9, 9, 9, 9 :: int]\<rparr>"
  have "well_formed ?X" "(0::int) < 1" "(0::int) < 2" "(1::int) * 2 < int 3"
    by (simp_all add: well_formed_def)
  from grid_truncates [OF this, where h = 1 and w = 2]
  obtain g where g: "batch_of_images_to_grid ?X 1 2 = Inr g"
    and s: "\<forall>imgs'. getslice_to imgs' (1 * 2) = getslice_to ?X (1 * 2) \<longrightarrow>
                   batch_of_images_to_grid imgs' 1 2 = Inr g"
    and c: "\<forall>i y x. int i < 1 * 2 \<and> y < 1 \<and> x < 2 \<longrightarrow>
                   (\<exists>v. getitem ?X [i, y, x] = Inr v \<and>
                        getitem g [(i div nat 2) * 1 + y, (i mod nat 2) * 2 + x] = Inr v)"
    by auto
  have "getslice_to ?X' (1 * 2) = getslice_to ?X (1 * 2)" by (simp add: getslice_to_def)
  with s have g': "batch_of_images_to_grid ?X' 1 2 = Inr g" by blast
  from c [rule_format, of 1 0 1] have "getitem g [0, 3] = Inr 4"
    by (simp add: getitem_def ndim_def)
  with g g' show "\<exists>g. batch_of_images_to_grid ?X 1 2 = Inr g
        \<and> batch_of_images_to_grid ?X' 1 2 = Inr g \<and> getitem g [0, 3] = Inr 4"
    by blast
next
  let ?X = "\<lparr>shape = [3, 1, 1, 2], data = [1, 2, 3, 4, 5, 6 :: int]\<rparr>"
  let ?X' = "\<lparr>shape = [2, 1, 1, 2], data = [1, 2, 3, 4 :: int]\<rparr>"
  have "well_formed ?X" "(0::int) < 1" "(0::int) < 2" "(1::int) * 2 < int 3"
    by (simp_all add: well_formed_def)
  from grid_truncates [OF this, where h = 1 and w = 1 and c = 2]
  obtain g where g: "batch_of_images_to_grid ?X 1 2 = Inr g"
    and s: "\<forall>imgs'. getslice_to imgs' (1 * 2) = getslice_to ?X (1 * 2) \<longrightarrow>
                   batch_of_images_to_grid imgs' 1 2 = Inr g"
    and c: "\<forall>i y x ch. int i < 1 * 2 \<and> y < 1 \<and> x < 1 \<and> ch < 2 \<longrightarrow>
                   (\<exists>v. getitem ?X [i, y, x, ch] = Inr v \<and>
                        getitem g [(i div nat 2) * 1 + y, (i mod nat 2) * 1 + x, ch] = Inr v)"
    by auto
  have "getslice_to ?X' (1 * 2) = getslice_to ?X (1 * 2)" by (simp add: getslice_to_def)
  with s have g': "batch_of_images_to_grid ?X' 1 2 = Inr g" by blast
  from c [rule_format, of 1 0 0 1] have "getitem g [0, 1, 1] = Inr 4"
    by (simp add: getitem_def ndim_def)
  with g g' show "\<exists>g. batch_of_images_to_grid ?X 1 2 = Inr g
        \<and> batch_of_images_to_grid ?X' 1 2 = Inr g \<and> getitem g [0, 1, 1] = Inr 4"
    by blast
qed



text \<open>
  C5. For a batch of fewer than \<open>rows * cols\<close> images, every cell whose row-major
  index is at least the batch size is zero in every pixel. An empty batch of rank 3 or 4
  gives the grid of zeros of the computed shape.
\<close>

theorem grid_pads_zero:
  assumes "well_formed imgs" "0 < rows" "0 < cols" "int b < rows * cols"
  shows "(shape imgs = [b, h, w] \<longrightarrow>
            (\<exists>g. batch_of_images_to_grid imgs rows cols = Inr g \<and>
               (\<forall>i y x. b \<le> i \<and> int i < rows * cols \<and> y < h \<and> x < w \<longrightarrow>
                   getitem g [(i div nat cols) * h + y, (i mod nat cols) * w + x] = Inr 0) \<and>
               (b = 0 \<longrightarrow> g = zeros [nat rows * h, nat cols * w])))
       \<and> (shape imgs = [b, h, w, c] \<longrightarrow>
            (\<exists>g. batch_of_images_to_grid imgs rows cols = Inr g \<and>
               (\<forall>i y x ch. b \<le> i \<and> int i < rows * cols \<and> y < h \<and> x < w \<and> ch < c \<longrightarrow>
                   getitem g [(i div nat cols) * h + y, (i mod nat cols) * w + x, ch] = Inr 0) \<and>
               (b = 0 \<longrightarrow> g = zeros [nat rows * h, nat cols * w, c])))"
proof (intro conjI impI)
  assume s: "shape imgs = [b, h, w]"
  let ?g = "\<lparr>shape = [nat rows * h, nat cols * w],
         data = tiled (nat rows) (nat cols) h w 1 (padded imgs (nat rows * nat cols))\<rparr>"
  have g: "batch_of_images_to_grid imgs rows cols = Inr ?g"
    by (rule grid3[OF s assms(2,3)])
  have cells: "getitem ?g [(i div nat cols) * h + y, (i mod nat cols) * w + x] = Inr 0"
    if "b \<le> i \<and> int i < rows * cols \<and> y < h \<and> x < w" for i y x
  proof -
    from that have i: "int i < rows * cols" and y: "y < h" and x: "x < w" and ib: "\<not> i < b"
      by simp_all
    show ?thesis
      using grid_item3[OF s assms(1,2,3) i y x g] ib by simp
  qed
  have z: "?g = zeros [nat rows * h, nat cols * w]" if "b = 0"
    using that s padded_empty[of imgs "[h, w]" "nat rows * nat cols"]
      tiled_zeros[of "nat rows" "nat cols" h w 1, where 'a = 'a]
    by (simp add: zeros_def mult.assoc)
  show "\<exists>g. batch_of_images_to_grid imgs rows cols = Inr g \<and>
               (\<forall>i y x. b \<le> i \<and> int i < rows * cols \<and> y < h \<and> x < w \<longrightarrow>
                   getitem g [(i div nat cols) * h + y, (i mod nat cols) * w + x] = Inr 0) \<and>
               (b = 0 \<longrightarrow> g = zeros [nat rows * h, nat cols * w])"
  proof (intro exI[of _ ?g] conjI allI impI)
    show "batch_of_images_to_grid imgs rows cols = Inr ?g" by (rule g)
  next
    fix i y x
    assume "b \<le> i \<and> int i < rows * cols \<and> y < h \<and> x < w"
    then show "getitem ?g [(i div nat cols) * h + y, (i mod nat cols) * w + x] = Inr 0"
      by (rule cells)
  next
    assume "b = 0"
    then show "?g = zeros [nat rows * h, nat cols * w]" by (rule z)
  qed
next
  assume s: "shape imgs = [b, h, w, c]"
  let ?g = "\<lparr>shape = [nat rows * h, nat cols * w, c],
         data = tiled (nat rows) (nat cols) h w c (padded imgs (nat rows * nat cols))\<rparr>"
  have g: "batch_of_images_to_grid imgs rows cols = Inr ?g"
    by (rule grid4[OF s assms(2,3)])
  have cells: "getitem ?g [(i div nat cols) * h + y, (i mod nat cols) * w + x, ch] = Inr 0"
    if "b \<le> i \<and> int i < rows * cols \<and> y < h \<and> x < w \<and> ch < c" for i y x ch
  proof -
    from that have i: "int i < rows * cols" and y: "y < h" and x: "x < w" and ch: "ch < c"
      and ib: "\<not> i < b"
      by simp_all
    show ?thesis
      using grid_item4[OF s assms(1,2,3) i y x ch g] ib by simp
  qed
  have z: "?g = zeros [nat rows * h, nat cols * w, c]" if "b = 0"
    using that s padded_empty[of imgs "[h, w, c]" "nat rows * nat cols"]
      tiled_zeros[of "nat rows" "nat cols" h w c, where 'a = 'a]
    by (simp add: zeros_def mult.assoc)
  show "\<exists>g. batch_of_images_to_grid imgs rows cols = Inr g \<and>
               (\<forall>i y x ch. b \<le> i \<and> int i < rows * cols \<and> y < h \<and> x < w \<and> ch < c \<longrightarrow>
                   getitem g [(i div nat cols) * h + y, (i mod nat cols) * w + x, ch] = Inr 0) \<and>
               (b = 0 \<longrightarrow> g = zeros [nat rows * h, nat cols * w, c])"
  proof (intro exI[of _ ?g] conjI allI impI)
    show "batch_of_images_to_grid imgs rows cols = Inr ?g" by (rule g)
  next
    fix i y x ch
    assume "b \<le> i \<and> int i < rows * cols \<and> y < h \<and> x < w \<and> ch < c"
    then show "getitem ?g [(i div nat cols) * h + y, (i mod nat cols) * w + x, ch] = Inr 0"
      by (rule cells)
  next
    assume "b = 0"
    then show "?g = zeros [nat rows * h, nat cols * w, c]" by (rule z)
  qed
qed


theorem grid_pads_zero_witness:
  "(\<exists>g. batch_of_images_to_grid \<lparr>shape = [1, 1, 2], data = [7, 8 :: int]\<rparr> 1 2 = Inr g
        \<and> getitem g [0, 2] = Inr 0 \<and> getitem g [0, 3] = Inr 0)
   \<and> batch_of_images_to_grid \<lparr>shape = [0, 2, 2], data = [] :: int list\<rparr> 1 2
        = Inr (zeros [2, 4])
   \<and> (\<exists>g. batch_of_images_to_grid \<lparr>shape = [1, 1, 1, 2], data = [7, 8 :: int]\<rparr> 2 1 = Inr g
        \<and> getitem g [1, 0, 0] = Inr 0 \<and> getitem g [1, 0, 1] = Inr 0)
   \<and> batch_of_images_to_grid \<lparr>shape = [0, 2, 2, 3], data = [] :: int list\<rparr> 1 2
        = Inr (zeros [2, 4, 3])"
proof (intro conjI)
  let ?X = "\<lparr>shape = [1, 1, 2], data = [7, 8 :: int]\<rparr>"
  have "well_formed ?X" "(0::int) < 1" "(0::int) < 2" "int 1 < (1::int) * 2"
    by (simp_all add: well_formed_def)
  from grid_pads_zero [OF this, where h = 1 and w = 2]
  obtain g where g: "batch_of_images_to_grid ?X 1 2 = Inr g"
    and c: "\<forall>i y x. 1 \<le> i \<and> int i < 1 * 2 \<and> y < 1 \<and> x < 2 \<longrightarrow>
                   getitem g [(i div nat 2) * 1 + y, (i mod nat 2) * 2 + x] = Inr 0"
    by auto
  from c [rule_format, of 1 0 0] c [rule_format, of 1 0 1]
  have "getitem g [0, 2] = Inr 0" "getitem g [0, 3] = Inr 0" by simp_all
  with g show "\<exists>g. batch_of_images_to_grid ?X 1 2 = Inr g
        \<and> getitem g [0, 2] = Inr 0 \<and> getitem g [0, 3] = Inr 0" by blast
next
  let ?X = "\<lparr>shape = [0, 2, 2], data = [] :: int list\<rparr>"
  have "well_formed ?X" "(0::int) < 1" "(0::int) < 2" "int 0 < (1::int) * 2"
    by (simp_all add: well_formed_def)
  from grid_pads_zero [OF this, where h = 2 and w = 2]
  show "batch_of_images_to_grid ?X 1 2 = Inr (zeros [2, 4])" by auto
next
  let ?X = "\<lparr>shape = [1, 1, 1, 2], data = [7, 8 :: int]\<rparr>"
  have "well_formed ?X" "(0::int) < 2" "(0::int) < 1" "int 1 < (2::int) * 1"
    by (simp_all add: well_formed_def)
  from grid_pads_zero [OF this, where h = 1 and w = 1 and c = 2]
  obtain g where g: "batch_of_images_to_grid ?X 2 1 = Inr g"
    and c: "\<forall>i y x ch. 1 \<le> i \<and> int i < 2 * 1 \<and> y < 1 \<and> x < 1 \<and> ch < 2 \<longrightarrow>
                   getitem g [(i div nat 1) * 1 + y, (i mod nat 1) * 1 + x, ch] = Inr 0"
    by auto
  from c [rule_format, of 1 0 0 0] c [rule_format, of 1 0 0 1]
  have "getitem g [1, 0, 0] = Inr 0" "getitem g [1, 0, 1] = Inr 0" by simp_all
  with g show "\<exists>g. batch_of_images_to_grid ?X 2 1 = Inr g
        \<and> getitem g [1, 0, 0] = Inr 0 \<and> getitem g [1, 0, 1] = Inr 0" by blast
next
  let ?X = "\<lparr>shape = [0, 2, 2, 3], data = [] :: int list\<rparr>"
  have "well_formed ?X" "(0::int) < 1" "(0::int) < 2" "int 0 < (1::int) * 2"
    by (simp_all add: well_formed_def)
  from grid_pads_zero [OF this, where h = 2 and w = 2 and c = 3]
  show "batch_of_images_to_grid ?X 1 2 = Inr (zeros [2, 4, 3])" by auto
qed

section \<open>Properties of the label colorizer\<close>

text \<open>Indexing the colormap, and one pass of the loop on a label array of rank 2.\<close>

lemma list_getitem_in_range:
  assumes "- int (length xs) \<le> i" "i < int (length xs)"
  shows "\<exists>c. list_getitem xs i = Inr c \<and> c \<in> set xs"
proof (cases "i < 0")
  case True
  then have "nat (int (length xs) + i) < length xs" using assms by linarith
  then show ?thesis using True assms by (simp add: list_getitem_def)
next
  case False
  then have "nat i < length xs" using assms by linarith
  then show ?thesis using False assms by (simp add: list_getitem_def)
qed

lemma list_getitem_out_of_range:
  assumes "i < - int (length xs) \<or> int (length xs) \<le> i"
  shows "list_getitem xs i = Inl IndexError"
  using assms by (auto simp: list_getitem_def)

lemma list_getitem_error:
  "list_getitem xs i = Inl e \<Longrightarrow> e = IndexError \<and> (i < - int (length xs) \<or> int (length xs) \<le> i)"
  by (auto simp: list_getitem_def split: if_splits)

lemma setitem_mask_rgb:
  assumes "shape label = [h, w]" "shape lv = [h, w, 3]" "length v = 3"
    and "list_all (\<lambda>x. 0 \<le> x \<and> x \<le> 255) v"
  shows "setitem_mask lv label uid v =
     Inr (lv\<lparr>data := map (\<lambda>k. if map (\<lambda>l. l = uid) (data label) ! (k div 3)
                                then v ! (k mod 3) else data lv ! k)
                         [0..<length (data lv)]\<rparr>)"
  using assms by (simp add: setitem_mask_def ndim_def)

lemma paint_in_range:
  assumes "shape label = [h, w]"
    and "\<forall>c\<in>set cm. length c = 3 \<and> (\<forall>v\<in>set c. 0 \<le> v \<and> v \<le> 255)"
  shows "shape lv = [h, w, 3] \<Longrightarrow> length (data lv) = 3 * length (data label) \<Longrightarrow>
         \<forall>u\<in>set uids. - int (length cm) \<le> u \<and> u < int (length cm) \<Longrightarrow>
         \<exists>lv'. paint cm label uids lv = Inr lv' \<and> shape lv' = [h, w, 3] \<and>
            length (data lv') = length (data lv) \<and>
            (\<forall>k<length (data lv).
               (data label ! (k div 3) \<in> set uids \<longrightarrow>
                  (\<exists>c. list_getitem cm (data label ! (k div 3)) = Inr c \<and>
                       data lv' ! k = c ! (k mod 3))) \<and>
               (data label ! (k div 3) \<notin> set uids \<longrightarrow> data lv' ! k = data lv ! k))"
proof (induction uids arbitrary: lv)
  case Nil
  then show ?case by simp
next
  case (Cons uid uids)
  from Cons.prems(3) obtain c where c: "list_getitem cm uid = Inr c" "c \<in> set cm"
    using list_getitem_in_range[of cm uid] by auto
  then have lc: "length c = 3" and lb: "list_all (\<lambda>x. 0 \<le> x \<and> x \<le> 255) c"
    using assms(2) by (simp_all add: list_all_iff)
  let ?lv1 = "lv\<lparr>data := map (\<lambda>k. if map (\<lambda>l. l = uid) (data label) ! (k div 3)
                                then c ! (k mod 3) else data lv ! k)
                         [0..<length (data lv)]\<rparr>"
  have s1: "setitem_mask lv label uid c = Inr ?lv1"
    by (rule setitem_mask_rgb[OF assms(1) Cons.prems(1) lc lb])
  have sh1: "shape ?lv1 = [h, w, 3]" using Cons.prems(1) by simp
  have len1: "length (data ?lv1) = 3 * length (data label)" using Cons.prems(2) by simp
  have rng: "\<forall>u\<in>set uids. - int (length cm) \<le> u \<and> u < int (length cm)"
    using Cons.prems(3) by simp
  from Cons.IH[OF sh1 len1 rng] obtain lv' where
    p: "paint cm label uids ?lv1 = Inr lv'" and sh: "shape lv' = [h, w, 3]"
    and len: "length (data lv') = length (data ?lv1)"
    and el: "\<forall>k<length (data ?lv1).
               (data label ! (k div 3) \<in> set uids \<longrightarrow>
                  (\<exists>c. list_getitem cm (data label ! (k div 3)) = Inr c \<and>
                       data lv' ! k = c ! (k mod 3))) \<and>
               (data label ! (k div 3) \<notin> set uids \<longrightarrow> data lv' ! k = data ?lv1 ! k)"
    by blast
  have pp: "paint cm label (uid # uids) lv = Inr lv'" using c(1) s1 p by simp
  have "(data label ! (k div 3) \<in> set (uid # uids) \<longrightarrow>
                  (\<exists>c. list_getitem cm (data label ! (k div 3)) = Inr c \<and>
                       data lv' ! k = c ! (k mod 3))) \<and>
               (data label ! (k div 3) \<notin> set (uid # uids) \<longrightarrow> data lv' ! k = data lv ! k)"
    if k: "k < length (data lv)" for k
  proof -
    have kd: "k div 3 < length (data label)" using k Cons.prems(2) by simp
    have m: "map (\<lambda>l. l = uid) (data label) ! (k div 3) = (data label ! (k div 3) = uid)"
      using kd by simp
    have d1: "data ?lv1 ! k = (if data label ! (k div 3) = uid then c ! (k mod 3)
                               else data lv ! k)"
      using k m by simp
    from el k have e: "(data label ! (k div 3) \<in> set uids \<longrightarrow>
                  (\<exists>c. list_getitem cm (data label ! (k div 3)) = Inr c \<and>
                       data lv' ! k = c ! (k mod 3))) \<and>
               (data label ! (k div 3) \<notin> set uids \<longrightarrow> data lv' ! k = data ?lv1 ! k)"
      by simp
    show ?thesis
    proof (cases "data label ! (k div 3) \<in> set uids")
      case True
      with e show ?thesis by simp
    next
      case False
      with e have "data lv' ! k = data ?lv1 ! k" by simp
      with d1 False c(1) show ?thesis by auto
    qed
  qed
  with pp sh len show ?case by simp
qed

lemma paint_out_of_range:
  assumes "shape label = [h, w]"
    and "\<forall>c\<in>set cm. length c = 3 \<and> (\<forall>v\<in>set c. 0 \<le> v \<and> v \<le> 255)"
  shows "shape lv = [h, w, 3] \<Longrightarrow>
         \<exists>u\<in>set uids. u < - int (length cm) \<or> int (length cm) \<le> u \<Longrightarrow>
         paint cm label uids lv = Inl IndexError"
proof (induction uids arbitrary: lv)
  case Nil
  then show ?case by simp
next
  case (Cons uid uids)
  show ?case
  proof (cases "uid < - int (length cm) \<or> int (length cm) \<le> uid")
    case True
    then show ?thesis by (simp add: list_getitem_out_of_range)
  next
    case False
    then obtain c where c: "list_getitem cm uid = Inr c" "c \<in> set cm"
      using list_getitem_in_range[of cm uid] by auto
    then have lc: "length c = 3" and lb: "list_all (\<lambda>x. 0 \<le> x \<and> x \<le> 255) c"
    using assms(2) by (simp_all add: list_all_iff)
    let ?lv1 = "lv\<lparr>data := map (\<lambda>k. if map (\<lambda>l. l = uid) (data label) ! (k div 3)
                                then c ! (k mod 3) else data lv ! k)
                         [0..<length (data lv)]\<rparr>"
    have s1: "setitem_mask lv label uid c = Inr ?lv1"
      by (rule setitem_mask_rgb[OF assms(1) Cons.prems(1) lc lb])
    have sh1: "shape ?lv1 = [h, w, 3]" using Cons.prems(1) by simp
    have bad: "\<exists>u\<in>set uids. u < - int (length cm) \<or> int (length cm) \<le> u"
      using Cons.prems(2) False by auto
    have "paint cm label uids ?lv1 = Inl IndexError" by (rule Cons.IH[OF sh1 bad])
    then show ?thesis using c(1) s1 by simp
  qed
qed

lemma set_np_unique: "set (np_unique xs) = set xs"
  by (simp add: np_unique_def)

lemma label_viz_array_rank2:
  assumes "shape label = [h, w]"
  shows "label_viz_array label colormap =
     paint (case colormap of None \<Rightarrow> default_colormap | Some c \<Rightarrow> c) label
       (np_unique (data label)) (zeros [h, w, 3])"
  using assms by (simp add: label_viz_array_def)

lemma rgb_offset:
  fixes y w x ch :: nat
  assumes "ch < 3"
  shows "(y * (w * 3) + (x * 3 + ch)) div 3 = y * w + x"
    and "(y * (w * 3) + (x * 3 + ch)) mod 3 = ch"
proof -
  have e: "y * (w * 3) + (x * 3 + ch) = (y * w + x) * 3 + ch" by (simp add: algebra_simps)
  have d: "(n * 3 + ch) div 3 = n" and m: "(n * 3 + ch) mod 3 = ch" for n
    using assms by simp_all
  show "(y * (w * 3) + (x * 3 + ch)) div 3 = y * w + x" by (simp only: e d)
  show "(y * (w * 3) + (x * 3 + ch)) mod 3 = ch" by (simp only: e m)
qed

lemma label_viz_array_pixels:
  assumes "well_formed label" "shape label = [h, w]"
    and "cm = (case colormap of None \<Rightarrow> default_colormap | Some c \<Rightarrow> c)"
    and "\<forall>c\<in>set cm. length c = 3 \<and> (\<forall>v\<in>set c. 0 \<le> v \<and> v \<le> 255)"
    and "\<forall>k\<in>set (data label). - int (length cm) \<le> k \<and> k < int (length cm)"
  shows "\<exists>viz. label_viz_array label colormap = Inr viz \<and> shape viz = [h, w, 3] \<and>
            well_formed viz \<and>
            (\<forall>y x ch. y < h \<and> x < w \<and> ch < 3 \<longrightarrow>
               (\<exists>c. list_getitem cm (data label ! (y * w + x)) = Inr c \<and>
                    getitem viz [y, x, ch] = Inr (c ! ch)))"
proof -
  let ?z = "zeros [h, w, 3] :: int ndarray"
  have len: "length (data label) = h * w" using assms(1,2) by (simp add: well_formed_def)
  have zs: "shape ?z = [h, w, 3]" by (simp add: zeros_def)
  have zl: "length (data ?z) = 3 * length (data label)" by (simp add: zeros_def len)
  have rng: "\<forall>u\<in>set (np_unique (data label)). - int (length cm) \<le> u \<and> u < int (length cm)"
    using assms(5) by (simp add: set_np_unique)
  from paint_in_range[OF assms(2,4) zs zl rng] obtain viz where
    p: "paint cm label (np_unique (data label)) ?z = Inr viz" and sh: "shape viz = [h, w, 3]"
    and vl: "length (data viz) = length (data ?z)"
    and el: "\<forall>k<length (data ?z).
               (data label ! (k div 3) \<in> set (np_unique (data label)) \<longrightarrow>
                  (\<exists>c. list_getitem cm (data label ! (k div 3)) = Inr c \<and>
                       data viz ! k = c ! (k mod 3))) \<and>
               (data label ! (k div 3) \<notin> set (np_unique (data label)) \<longrightarrow>
                  data viz ! k = data ?z ! k)"
    by blast
  have r: "label_viz_array label colormap = Inr viz"
    using p label_viz_array_rank2[OF assms(2), of colormap] assms(3) by simp
  have wfv: "well_formed viz" using vl sh zl len by (simp add: well_formed_def)
  have px: "\<exists>c. list_getitem cm (data label ! (y * w + x)) = Inr c \<and>
                    getitem viz [y, x, ch] = Inr (c ! ch)"
    if "y < h \<and> x < w \<and> ch < 3" for y x ch
  proof -
    from that have y: "y < h" and x: "x < w" and ch: "ch < 3" by simp_all
    let ?k = "y * (w * 3) + (x * 3 + ch)"
    have p: "y * w + x < h * w" using y x by (rule cell_bound)
    have "?k = (y * w + x) * 3 + ch" by (simp add: algebra_simps)
    also have "\<dots> < (h * w) * 3" using p ch by (rule cell_bound)
    finally have k: "?k < length (data ?z)" using zl len by simp
    have mem: "data label ! (?k div 3) \<in> set (np_unique (data label))"
      using p len by (simp add: rgb_offset(1)[OF ch] set_np_unique)
    from el k mem obtain c where
      c: "list_getitem cm (data label ! (?k div 3)) = Inr c"
         "data viz ! ?k = c ! (?k mod 3)"
      by blast
    have g: "getitem viz [y, x, ch] = Inr (data viz ! ?k)"
      using y x ch sh by (simp add: getitem_def ndim_def)
    show ?thesis using c g by (simp add: rgb_offset[OF ch])
  qed
  show ?thesis using r sh wfv px by blast
qed

lemma label_item:
  assumes "shape label = [h, w]" "y < h" "x < w"
  shows "getitem label [y, x] = Inr (data label ! (y * w + x))"
  using assms by (simp add: getitem_def ndim_def)

lemma viz_of_array:
  "label_viz_array label colormap = Inr viz \<Longrightarrow>
   viz_segmentation_label fromarray label colormap = fromarray viz None"
  by (simp add: viz_segmentation_label_def)

lemma viz_of_error:
  "label_viz_array label colormap = Inl e \<Longrightarrow>
   viz_segmentation_label fromarray label colormap = Inl e"
  by (simp add: viz_segmentation_label_def)

text \<open>
  C6. For a label array of rank 2 whose values are all within \<open>0 \<dots> len - 1\<close> of a
  colormap of RGB triples with components in \<open>0 \<dots> 255\<close>, the colorizer makes an array
  of shape \<open>(h, w, 3)\<close>, handed to the imaging library, in which the pixel at every
  position whose label is \<open>k\<close> is \<open>colormap[k]\<close>. The instance that follows is a label array
  of zeros and ones with the default colormap.
\<close>

theorem colorizer_paints_colormap:
  assumes "well_formed label" "shape label = [h, w]"
    and "cm = (case colormap of None \<Rightarrow> default_colormap | Some c \<Rightarrow> c)"
    and "\<forall>c\<in>set cm. length c = 3 \<and> (\<forall>v\<in>set c. 0 \<le> v \<and> v \<le> 255)"
    and "\<forall>k\<in>set (data label). 0 \<le> k \<and> k < int (length cm)"
  shows "\<exists>viz. label_viz_array label colormap = Inr viz \<and>
            viz_segmentation_label fromarray label colormap = fromarray viz None \<and>
            shape viz = [h, w, 3] \<and> well_formed viz \<and>
            (\<forall>y x ch k. y < h \<and> x < w \<and> ch < 3 \<and> getitem label [y, x] = Inr k \<longrightarrow>
               getitem viz [y, x, ch] = Inr (cm ! nat k ! ch))"
proof -
  have rng: "\<forall>k\<in>set (data label). - int (length cm) \<le> k \<and> k < int (length cm)"
    using assms(5) by force
  have len: "length (data label) = h * w" using assms(1,2) by (simp add: well_formed_def)
  from label_viz_array_pixels[OF assms(1,2,3,4) rng] obtain viz where
    r: "label_viz_array label colormap = Inr viz" and sh: "shape viz = [h, w, 3]"
    and wfv: "well_formed viz"
    and px: "\<forall>y x ch. y < h \<and> x < w \<and> ch < 3 \<longrightarrow>
               (\<exists>c. list_getitem cm (data label ! (y * w + x)) = Inr c \<and>
                    getitem viz [y, x, ch] = Inr (c ! ch))"
    by blast
  have "getitem viz [y, x, ch] = Inr (cm ! nat k ! ch)"
    if "y < h \<and> x < w \<and> ch < 3 \<and> getitem label [y, x] = Inr k" for y x ch k
  proof -
    from that have y: "y < h" and x: "x < w" and ch: "ch < 3"
      and g: "getitem label [y, x] = Inr k" by simp_all
    have k: "k = data label ! (y * w + x)" using g label_item[OF assms(2) y x] by simp
    have "y * w + x < h * w" using y x by (rule cell_bound)
    then have "k \<in> set (data label)" using k len by simp
    then have k0: "0 \<le> k" and kn: "k < int (length cm)" using assms(5) by simp_all
    then have n: "nat k < length cm" by linarith
    have lg: "list_getitem cm k = Inr (cm ! nat k)" using k0 kn by (simp add: list_getitem_def)
    from px y x ch obtain c where
      c: "list_getitem cm (data label ! (y * w + x)) = Inr c"
         "getitem viz [y, x, ch] = Inr (c ! ch)" by blast
    have ceq: "c = cm ! nat k" using c(1) lg k by simp
    have cin: "cm ! nat k \<in> set cm" using n by simp
    then have "length (cm ! nat k) = 3" using assms(4) by simp
    then have "cm ! nat k ! ch \<in> set (cm ! nat k)" using ch by simp
    then have "0 \<le> cm ! nat k ! ch \<and> cm ! nat k ! ch \<le> 255" using assms(4) cin by blast
    then show ?thesis using c(2) ceq by simp
  qed
  then show ?thesis using r sh wfv viz_of_array[OF r] by blast
qed

theorem colorizer_paints_colormap_witness:
  "\<exists>viz. label_viz_array \<lparr>shape = [2, 2], data = [0, 1, 1, 0]\<rparr> None = Inr viz
      \<and> viz_segmentation_label (\<lambda>a m. Inr (a, m)) \<lparr>shape = [2, 2], data = [0, 1, 1, 0]\<rparr> None
          = Inr (viz, None)
      \<and> shape viz = [2, 2, 3]
      \<and> getitem viz [0, 0, 0] = Inr (default_colormap ! 0 ! 0)
      \<and> getitem viz [0, 0, 1] = Inr (default_colormap ! 0 ! 1)
      \<and> getitem viz [0, 0, 2] = Inr (default_colormap ! 0 ! 2)
      \<and> getitem viz [0, 1, 0] = Inr 255
      \<and> getitem viz [0, 1, 1] = Inr 79
      \<and> getitem viz [0, 1, 2] = Inr 64"
proof -
  let ?X = "\<lparr>shape = [2, 2], data = [0, 1, 1, 0 :: int]\<rparr>"
  have h: "well_formed ?X" "shape ?X = [2, 2]"
    "default_colormap = (case None of None \<Rightarrow> default_colormap | Some c \<Rightarrow> c)"
    "\<forall>c\<in>set default_colormap. length c = 3 \<and> (\<forall>v\<in>set c. 0 \<le> v \<and> v \<le> 255)"
    "\<forall>k\<in>set (data ?X). 0 \<le> k \<and> k < int (length default_colormap)"
    by (simp_all add: well_formed_def default_colormap_def)
  from colorizer_paints_colormap [OF h, where fromarray = "\<lambda>a m. Inr (a, m)"]
  obtain viz where v: "label_viz_array ?X None = Inr viz"
    "viz_segmentation_label (\<lambda>a m. Inr (a, m)) ?X None = Inr (viz, None)"
    "shape viz = [2, 2, 3]"
    and px: "\<forall>y x ch k. y < 2 \<and> x < 2 \<and> ch < 3 \<and> getitem ?X [y, x] = Inr k \<longrightarrow>
               getitem viz [y, x, ch] = Inr (default_colormap ! nat k ! ch)"
    by blast
  have g0: "getitem ?X [0, 0] = Inr 0" and g1: "getitem ?X [0, 1] = Inr 1"
    by (simp_all add: getitem_def ndim_def)
  from px [rule_format, of 0 0 0 0] px [rule_format, of 0 0 1 0] px [rule_format, of 0 0 2 0]
    px [rule_format, of 0 1 0 1] px [rule_format, of 0 1 1 1] px [rule_format, of 0 1 2 1]
    g0 g1
  have "getitem viz [0, 0, 0] = Inr (default_colormap ! 0 ! 0)"
    "getitem viz [0, 0, 1] = Inr (default_colormap ! 0 ! 1)"
    "getitem viz [0, 0, 2] = Inr (default_colormap ! 0 ! 2)"
    "getitem viz [0, 1, 0] = Inr 255" "getitem viz [0, 1, 1] = Inr 79"
    "getitem viz [0, 1, 2] = Inr 64"
    by (simp_all add: default_colormap_def)
  with v show ?thesis by blast
qed

text \<open>
  C7. With a colormap of RGB triples with components in \<open>0 \<dots> 255\<close>, the
  colorizer fails with \<open>IndexError\<close> exactly when some label is above
  \<open>len - 1\<close> or below \<open>- len\<close>: a Python list takes the indices
  \<open>- len \<dots> len - 1\<close>. The label 5 with the default colormap of four entries is
  the instance that follows.
\<close>

theorem colorizer_index_error_iff:
  assumes "well_formed label" "shape label = [h, w]"
    and "cm = (case colormap of None \<Rightarrow> default_colormap | Some c \<Rightarrow> c)"
    and "\<forall>c\<in>set cm. length c = 3 \<and> (\<forall>v\<in>set c. 0 \<le> v \<and> v \<le> 255)"
  shows "(label_viz_array label colormap = Inl IndexError \<longleftrightarrow>
            (\<exists>k\<in>set (data label). int (length cm) - 1 < k \<or> k < - int (length cm)))
       \<and> ((\<exists>k\<in>set (data label). int (length cm) - 1 < k \<or> k < - int (length cm)) \<longrightarrow>
            viz_segmentation_label fromarray label colormap = Inl IndexError)"
proof -
  let ?bad = "\<exists>k\<in>set (data label). int (length cm) - 1 < k \<or> k < - int (length cm)"
  have zs: "shape (zeros [h, w, 3] :: int ndarray) = [h, w, 3]" by (simp add: zeros_def)
  have e: "label_viz_array label colormap = Inl IndexError" if ?bad
  proof -
    from that obtain k where k: "k \<in> set (data label)"
      and kb: "int (length cm) - 1 < k \<or> k < - int (length cm)" by blast
    from kb have "k < - int (length cm) \<or> int (length cm) \<le> k" by linarith
    with k have "\<exists>u\<in>set (np_unique (data label)). u < - int (length cm) \<or> int (length cm) \<le> u"
      unfolding set_np_unique by blast
    from paint_out_of_range[OF assms(2,4) zs this]
    show ?thesis using label_viz_array_rank2[OF assms(2), of colormap] assms(3) by simp
  qed
  have ok: "label_viz_array label colormap \<noteq> Inl IndexError" if "\<not> ?bad"
  proof -
    from that have "\<forall>k\<in>set (data label). - int (length cm) \<le> k \<and> k < int (length cm)"
      by force
    from label_viz_array_pixels[OF assms(1,2,3,4) this] show ?thesis by auto
  qed
  show ?thesis using e ok viz_of_error[of label colormap IndexError fromarray] by blast
qed

theorem colorizer_index_error_iff_witness:
  "label_viz_array \<lparr>shape = [1, 2], data = [0, 5]\<rparr> None = Inl IndexError
   \<and> viz_segmentation_label (\<lambda>a m. Inr (a, m)) \<lparr>shape = [1, 2], data = [0, 5]\<rparr> None
       = Inl IndexError
   \<and> label_viz_array \<lparr>shape = [1, 2], data = [0, 3]\<rparr> None \<noteq> Inl IndexError"
proof -
  let ?X = "\<lparr>shape = [1, 2], data = [0, 5 :: int]\<rparr>"
  let ?Y = "\<lparr>shape = [1, 2], data = [0, 3 :: int]\<rparr>"
  have c: "default_colormap = (case None of None \<Rightarrow> default_colormap | Some c \<Rightarrow> c)"
    "\<forall>c\<in>set default_colormap. length c = 3 \<and> (\<forall>v\<in>set c. 0 \<le> v \<and> v \<le> 255)"
    by (simp_all add: default_colormap_def)
  have x: "well_formed ?X" "shape ?X = [1, 2]" by (simp_all add: well_formed_def)
  have y: "well_formed ?Y" "shape ?Y = [1, 2]" by (simp_all add: well_formed_def)
  have bx: "\<exists>k\<in>set (data ?X). int (length default_colormap) - 1 < k
              \<or> k < - int (length default_colormap)"
    by (simp add: default_colormap_def)
  have by': "\<not> (\<exists>k\<in>set (data ?Y). int (length default_colormap) - 1 < k
              \<or> k < - int (length default_colormap))"
    by (simp add: default_colormap_def)
  from colorizer_index_error_iff [OF x c, where fromarray = "\<lambda>a m. Inr (a, m)"] bx
    colorizer_index_error_iff [OF y c, where fromarray = "\<lambda>a m. Inr (a, m)"] by'
  show ?thesis by blast
qed

text \<open>
  The failure is not only for labels above \<open>len - 1\<close>: the label \<open>- 5\<close> is below
  every index of a list of four entries.
\<close>

theorem colorizer_index_error_counterexample:
  "label_viz_array \<lparr>shape = [1, 1], data = [- 5]\<rparr> None = Inl IndexError
   \<and> \<not> (int (length default_colormap) - 1 < - 5)"
  by code_simp

text \<open>
  C9. When all labels are within \<open>- len \<dots> len - 1\<close>, the colorizer raises nothing
  and a pixel with a negative label \<open>k\<close> is painted \<open>colormap[len + k]\<close>, so the
  label \<open>- 1\<close> gets the last color. An \<open>IndexError\<close> needs a label of at least
  \<open>len\<close> or a label below \<open>- len\<close>.
\<close>

theorem colorizer_negative_labels:
  assumes "well_formed label" "shape label = [h, w]"
    and "cm = (case colormap of None \<Rightarrow> default_colormap | Some c \<Rightarrow> c)"
    and "\<forall>c\<in>set cm. length c = 3 \<and> (\<forall>v\<in>set c. 0 \<le> v \<and> v \<le> 255)"
  shows "((\<forall>k\<in>set (data label). - int (length cm) \<le> k \<and> k < int (length cm)) \<longrightarrow>
           (\<exists>viz. label_viz_array label colormap = Inr viz \<and>
              viz_segmentation_label fromarray label colormap = fromarray viz None \<and>
              (\<forall>y x ch k. y < h \<and> x < w \<and> ch < 3 \<and> getitem label [y, x] = Inr k \<and> k < 0 \<longrightarrow>
                 getitem viz [y, x, ch] = Inr (cm ! nat (int (length cm) + k) ! ch))))
       \<and> (label_viz_array label colormap = Inl IndexError \<longrightarrow>
            (\<exists>k\<in>set (data label). int (length cm) \<le> k \<or> k < - int (length cm)))"
proof (intro conjI impI)
  assume rng: "\<forall>k\<in>set (data label). - int (length cm) \<le> k \<and> k < int (length cm)"
  have len: "length (data label) = h * w" using assms(1,2) by (simp add: well_formed_def)
  from label_viz_array_pixels[OF assms(1,2,3,4) rng] obtain viz where
    r: "label_viz_array label colormap = Inr viz"
    and px: "\<forall>y x ch. y < h \<and> x < w \<and> ch < 3 \<longrightarrow>
               (\<exists>c. list_getitem cm (data label ! (y * w + x)) = Inr c \<and>
                    getitem viz [y, x, ch] = Inr (c ! ch))"
    by blast
  have "getitem viz [y, x, ch] = Inr (cm ! nat (int (length cm) + k) ! ch)"
    if "y < h \<and> x < w \<and> ch < 3 \<and> getitem label [y, x] = Inr k \<and> k < 0" for y x ch k
  proof -
    from that have y: "y < h" and x: "x < w" and ch: "ch < 3"
      and g: "getitem label [y, x] = Inr k" and neg: "k < 0" by simp_all
    have k: "k = data label ! (y * w + x)" using g label_item[OF assms(2) y x] by simp
    have "y * w + x < h * w" using y x by (rule cell_bound)
    then have "k \<in> set (data label)" using k len by simp
    then have lo: "- int (length cm) \<le> k" using rng by simp
    let ?j = "nat (int (length cm) + k)"
    have n: "?j < length cm" using lo neg by linarith
    have lg: "list_getitem cm k = Inr (cm ! ?j)" using lo neg by (simp add: list_getitem_def)
    from px y x ch obtain c where
      c: "list_getitem cm (data label ! (y * w + x)) = Inr c"
         "getitem viz [y, x, ch] = Inr (c ! ch)" by blast
    have ceq: "c = cm ! ?j" using c(1) lg k by simp
    have cin: "cm ! ?j \<in> set cm" using n by simp
    then have "length (cm ! ?j) = 3" using assms(4) by simp
    then have "cm ! ?j ! ch \<in> set (cm ! ?j)" using ch by simp
    then have "0 \<le> cm ! ?j ! ch \<and> cm ! ?j ! ch \<le> 255" using assms(4) cin by blast
    then show ?thesis using c(2) ceq by simp
  qed
  then show "\<exists>viz. label_viz_array label colormap = Inr viz \<and>
              viz_segmentation_label fromarray label colormap = fromarray viz None \<and>
              (\<forall>y x ch k. y < h \<and> x < w \<and> ch < 3 \<and> getitem label [y, x] = Inr k \<and> k < 0 \<longrightarrow>
                 getitem viz [y, x, ch] = Inr (cm ! nat (int (length cm) + k) ! ch))"
    using r viz_of_array[OF r] by blast
next
  assume e: "label_viz_array label colormap = Inl IndexError"
  show "\<exists>k\<in>set (data label). int (length cm) \<le> k \<or> k < - int (length cm)"
  proof (rule ccontr)
    assume "\<not> (\<exists>k\<in>set (data label). int (length cm) \<le> k \<or> k < - int (length cm))"
    then have "\<forall>k\<in>set (data label). - int (length cm) \<le> k \<and> k < int (length cm)"
      by force
    from label_viz_array_pixels[OF assms(1,2,3,4) this] e show False by auto
  qed
qed

theorem colorizer_negative_labels_witness:
  "(\<exists>viz. label_viz_array \<lparr>shape = [1, 2], data = [- 1, - 4]\<rparr> None = Inr viz
      \<and> getitem viz [0, 0, 0] = Inr 48 \<and> getitem viz [0, 0, 1] = Inr 126
      \<and> getitem viz [0, 0, 2] = Inr 199
      \<and> getitem viz [0, 1, 0] = Inr 0 \<and> getitem viz [0, 1, 1] = Inr 0
      \<and> getitem viz [0, 1, 2] = Inr 0)
   \<and> label_viz_array \<lparr>shape = [1, 2], data = [7, 0]\<rparr> None = Inl IndexError
   \<and> (\<exists>k\<in>set [7, 0]. int (length default_colormap) \<le> k \<or> k < - int (length default_colormap))"
proof (intro conjI)
  let ?X = "\<lparr>shape = [1, 2], data = [- 1, - 4 :: int]\<rparr>"
  have h: "well_formed ?X" "shape ?X = [1, 2]"
    "default_colormap = (case None of None \<Rightarrow> default_colormap | Some c \<Rightarrow> c)"
    "\<forall>c\<in>set default_colormap. length c = 3 \<and> (\<forall>v\<in>set c. 0 \<le> v \<and> v \<le> 255)"
    by (simp_all add: well_formed_def default_colormap_def)
  have r: "\<forall>k\<in>set (data ?X). - int (length default_colormap) \<le> k
              \<and> k < int (length default_colormap)"
    by (simp add: default_colormap_def)
  from colorizer_negative_labels [OF h, where fromarray = "\<lambda>a m. Inr (a, m)"] r
  obtain viz where v: "label_viz_array ?X None = Inr viz"
    and px: "\<forall>y x ch k. y < 1 \<and> x < 2 \<and> ch < 3 \<and> getitem ?X [y, x] = Inr k \<and> k < 0 \<longrightarrow>
               getitem viz [y, x, ch]
                 = Inr (default_colormap ! nat (int (length default_colormap) + k) ! ch)"
    by blast
  have g0: "getitem ?X [0, 0] = Inr (- 1)" and g1: "getitem ?X [0, 1] = Inr (- 4)"
    by (simp_all add: getitem_def ndim_def)
  from px [rule_format, of 0 0 0 "- 1"] px [rule_format, of 0 0 1 "- 1"]
    px [rule_format, of 0 0 2 "- 1"] px [rule_format, of 0 1 0 "- 4"]
    px [rule_format, of 0 1 1 "- 4"] px [rule_format, of 0 1 2 "- 4"] g0 g1
  have "getitem viz [0, 0, 0] = Inr 48" "getitem viz [0, 0, 1] = Inr 126"
    "getitem viz [0, 0, 2] = Inr 199" "getitem viz [0, 1, 0] = Inr 0"
    "getitem viz [0, 1, 1] = Inr 0" "getitem viz [0, 1, 2] = Inr 0"
    by (simp_all add: default_colormap_def)
  with v show "\<exists>viz. label_viz_array ?X None = Inr viz
      \<and> getitem viz [0, 0, 0] = Inr 48 \<and> getitem viz [0, 0, 1] = Inr 126
      \<and> getitem viz [0, 0, 2] = Inr 199
      \<and> getitem viz [0, 1, 0] = Inr 0 \<and> getitem viz [0, 1, 1] = Inr 0
      \<and> getitem viz [0, 1, 2] = Inr 0" by blast
next
  show e: "label_viz_array \<lparr>shape = [1, 2], data = [7, 0]\<rparr> None = Inl IndexError"
    by code_simp
  let ?Y = "\<lparr>shape = [1, 2], data = [7, 0 :: int]\<rparr>"
  have h: "well_formed ?Y" "shape ?Y = [1, 2]"
    "default_colormap = (case None of None \<Rightarrow> default_colormap | Some c \<Rightarrow> c)"
    "\<forall>c\<in>set default_colormap. length c = 3 \<and> (\<forall>v\<in>set c. 0 \<le> v \<and> v \<le> 255)"
    by (simp_all add: well_formed_def default_colormap_def)
  from colorizer_negative_labels [OF h, where fromarray = "\<lambda>a m. Inr (a, m)"] e
  show "\<exists>k\<in>set [7, 0]. int (length default_colormap) \<le> k \<or> k < - int (length default_colormap)"
    by simp
qed

text \<open>
  Labels of at least \<open>len\<close> are not the only ones refused: here no label reaches
  \<open>len\<close>, and the label \<open>- 6\<close> fails.
\<close>

theorem colorizer_negative_counterexample:
  "label_viz_array \<lparr>shape = [1, 2], data = [0, - 6]\<rparr> None = Inl IndexError
   \<and> \<not> (int (length default_colormap) \<le> 0)
   \<and> \<not> (int (length default_colormap) \<le> - 6)"
  by code_simp

section \<open>Properties of the image encoder\<close>

text \<open>
  C10. For an array whose rank is neither 2 nor 3, no branch of \<^verbatim>\<open>array2pil\<close>
  binds \<^verbatim>\<open>mode\<close>, and the call fails with \<open>UnboundLocalError\<close> whatever the
  imaging library would do; \<^verbatim>\<open>mode\<close> is bound exactly for the ranks 2 and 3.
\<close>

theorem array2pil_mode_unbound:
  "(ndim x \<noteq> 2 \<and> ndim x \<noteq> 3 \<longrightarrow> array2pil fromarray x = Inl UnboundLocalError)
   \<and> (fst (array2pil_locals x) \<noteq> None \<longleftrightarrow> ndim x = 2 \<or> ndim x = 3)"
  by (auto simp: array2pil_def array2pil_locals_def)

theorem array2pil_mode_unbound_witness:
  "array2pil (\<lambda>a m. Inr (a, m)) \<lparr>shape = [4], data = [1, 2, 3, 4 :: int]\<rparr>
     = Inl UnboundLocalError
   \<and> fst (array2pil_locals \<lparr>shape = [4], data = [1, 2, 3, 4 :: int]\<rparr>) = None
   \<and> fst (array2pil_locals \<lparr>shape = [2, 2], data = [1, 2, 3, 4 :: int]\<rparr>) \<noteq> None"
proof -
  let ?f = "\<lambda>(a :: int ndarray) (m :: string option). Inr (a, m) :: error + int ndarray \<times> string option"
  let ?X = "\<lparr>shape = [4], data = [1, 2, 3, 4 :: int]\<rparr>"
  let ?Y = "\<lparr>shape = [2, 2], data = [1, 2, 3, 4 :: int]\<rparr>"
  have x: "ndim ?X \<noteq> 2 \<and> ndim ?X \<noteq> 3" and y: "ndim ?Y = 2 \<or> ndim ?Y = 3"
    by (simp_all add: ndim_def)
  from array2pil_mode_unbound [of ?X ?f] x
  have 1: "array2pil ?f ?X = Inl UnboundLocalError" "fst (array2pil_locals ?X) = None"
    by simp_all
  from array2pil_mode_unbound [of ?Y ?f] y
  have 2: "fst (array2pil_locals ?Y) \<noteq> None" by blast
  from 1 2 show ?thesis by blast
qed

section \<open>Properties of the overlay compositor\<close>














end
